theory Spec2Isabelle
  imports Main
begin

section \<open>The two-tier answer cache of main1.py and the pipeline of agent.py\<close>

text \<open>
  Python text is modelled by \<^typ>\<open>string\<close>, one \<^typ>\<open>char\<close> for one code point
  (the code points below 256). A Python exception is a value of \<open>error\<close>; a function
  that may raise returns a sum with the exception on the left.
\<close>

datatype error =
    RetrievalError      \<comment> \<open>the embedding model or \<open>index.search\<close> raised\<close>
  | GenerationError     \<comment> \<open>\<open>generate_content\<close> or \<open>response.text\<close> raised\<close>
  | IndexError          \<comment> \<open>\<open>documents[i]\<close> out of range\<close>
  | OperationalError    \<comment> \<open>\<open>sqlite3\<close> could not execute the statement\<close>
  | StopIteration       \<comment> \<open>\<open>next\<close> on an exhausted iterator\<close>
  | RuntimeError        \<comment> \<open>what a coroutine turns a \<open>StopIteration\<close> into\<close>

subsection \<open>Python helpers: ordered dictionaries, text\<close>

text \<open>
  A \<open>dict\<close> keeps its keys in insertion order: it is a list of pairs with the oldest
  key first. \<open>d[k] = v\<close> keeps the position of a key that is already there and appends
  a new key; \<open>d.pop(k)\<close> removes the entry of the key (the code pops only a key that
  it has just read from the dictionary, so the \<open>KeyError\<close> of a missing key cannot
  occur).
\<close>

fun dict_set :: "('k \<times> 'v) list \<Rightarrow> 'k \<Rightarrow> 'v \<Rightarrow> ('k \<times> 'v) list" where
  "dict_set [] k v = [(k, v)]"
| "dict_set ((k', v') # d) k v =
     (if k' = k then (k, v) # d else (k', v') # dict_set d k v)"

fun dict_pop :: "('k \<times> 'v) list \<Rightarrow> 'k \<Rightarrow> ('k \<times> 'v) list" where
  "dict_pop [] k = []"
| "dict_pop ((k', v') # d) k = (if k' = k then d else (k', v') # dict_pop d k)"

definition newline :: string where
  "newline = [CHR 0x0A]"

fun join :: "string \<Rightarrow> string list \<Rightarrow> string" where
  "join sep [] = []"
| "join sep [x] = x"
| "join sep (x # y # ys) = x @ sep @ join sep (y # ys)"

definition isspace :: "char \<Rightarrow> bool" where
  "isspace c =
     (let n = (of_char c :: nat)
      in (9 \<le> n \<and> n \<le> 13) \<or> (28 \<le> n \<and> n \<le> 32) \<or> n = 133 \<or> n = 160)"

definition strip :: "string \<Rightarrow> string" where
  "strip s = rev (dropWhile isspace (rev (dropWhile isspace s)))"

text \<open>Truth value of \<open>if result:\<close> for a result that is \<open>None\<close> or a text.\<close>

fun truthy :: "string option \<Rightarrow> bool" where
  "truthy None = False"
| "truthy (Some s) = (s \<noteq> [])"

text \<open>Indexing a Python list; the indices \<open>-1\<close> down to \<open>-len(xs)\<close> read it backwards.\<close>

definition py_index :: "'a list \<Rightarrow> int \<Rightarrow> error + 'a" where
  "py_index xs i =
     (if 0 \<le> i \<and> i < int (length xs) then Inr (xs ! nat i)
      else if i < 0 \<and> - int (length xs) \<le> i then Inr (xs ! nat (int (length xs) + i))
      else Inl IndexError)"

subsection \<open>L1: the in-memory store\<close>

definition L1_CACHE_SIZE :: nat where
  "L1_CACHE_SIZE = 100"

text \<open>
  The functions take the capacity as their first argument; main1.py runs them
  with \<^const>\<open>L1_CACHE_SIZE\<close>.
\<close>

definition get_from_l1 :: "(string \<times> string) list \<Rightarrow> string \<Rightarrow> string option" where
  "get_from_l1 lru_cache_store query = map_of lru_cache_store query"

definition set_to_l1 ::
  "nat \<Rightarrow> (string \<times> string) list \<Rightarrow> string \<Rightarrow> string \<Rightarrow> error + (string \<times> string) list" where
  "set_to_l1 cap lru_cache_store query response =
     (if length lru_cache_store \<ge> cap then
        (case lru_cache_store of
           [] \<Rightarrow> Inl StopIteration
         | (oldest_key, _) # _ \<Rightarrow>
             Inr (dict_set (dict_pop lru_cache_store oldest_key) query response))
      else Inr (dict_set lru_cache_store query response))"

text \<open>A sequence of L1 operations; a \<open>put\<close> that raises leaves the store as it was.\<close>

datatype l1_op = Get string | Put string string

fun l1_apply :: "nat \<Rightarrow> (string \<times> string) list \<Rightarrow> l1_op \<Rightarrow> (string \<times> string) list" where
  "l1_apply cap d (Get k) = d"
| "l1_apply cap d (Put k v) =
     (case set_to_l1 cap d k v of Inl e \<Rightarrow> d | Inr d' \<Rightarrow> d')"

fun l1_run :: "nat \<Rightarrow> (string \<times> string) list \<Rightarrow> l1_op list \<Rightarrow> (string \<times> string) list" where
  "l1_run cap d [] = d"
| "l1_run cap d (x # xs) = l1_run cap (l1_apply cap d x) xs"

text \<open>Inserting a list of entries one after the other, stopping at the first error.\<close>

fun set_all_to_l1 ::
  "nat \<Rightarrow> (string \<times> string) list \<Rightarrow> (string \<times> string) list \<Rightarrow> error + (string \<times> string) list" where
  "set_all_to_l1 cap d [] = Inr d"
| "set_all_to_l1 cap d ((k, v) # kvs) =
     (case set_to_l1 cap d k v of Inl e \<Rightarrow> Inl e | Inr d' \<Rightarrow> set_all_to_l1 cap d' kvs)"

subsection \<open>The process state and the outside world\<close>

text \<open>
  \<open>lru_cache_store\<close> is the L1 dictionary. \<open>cache\<close> is the table of rag_cache.db, the
  response of each query (the timestamp column is written and never read). \<open>db_ok\<close>
  says whether sqlite3 can execute the \<open>SELECT\<close> of a lookup, and \<open>db_write_ok\<close>
  whether it can execute the \<open>INSERT\<close> and the \<open>commit\<close> of a write: a database that
  answers a lookup may still refuse the write that follows (locked, read-only, gone
  in the meantime). The two counters count the calls of
  the retrieval capability (\<open>index.search\<close>) and of the generation capability
  (\<open>generate_content\<close>).
\<close>

record world =
  lru_cache_store :: "(string \<times> string) list"
  cache :: "string \<rightharpoonup> string"
  db_ok :: bool
  db_write_ok :: bool
  retrieval_calls :: nat
  generation_calls :: nat

text \<open>
  The collaborators that are not code of the repository. \<open>index_search n query k\<close>
  is \<open>indices[0]\<close> of \<open>index.search(embed(query), k)\<close> at the call number \<open>n\<close>, and
  \<open>generate_content n prompt\<close> the \<open>text\<close> of the model's response at the call
  number \<open>n\<close>: the same prompt may be answered differently by two calls. \<open>None\<close> is a
  call that raises. \<open>http_get\<close> is \<open>requests.get(link).text\<close> and \<open>find_paragraphs\<close>
  the texts of the \<open>p\<close> elements that BeautifulSoup finds.
\<close>

record capabilities =
  documents :: "string list"
  index_search :: "nat \<Rightarrow> string \<Rightarrow> nat \<Rightarrow> int list option"
  generate_content :: "nat \<Rightarrow> string \<Rightarrow> string option"
  http_get :: "string \<Rightarrow> string option"
  find_paragraphs :: "string \<Rightarrow> string list"

subsection \<open>L2: the sqlite table\<close>

definition get_from_l2 :: "world \<Rightarrow> string \<Rightarrow> error + string option" where
  "get_from_l2 w query =
     (if db_ok w then Inr (cache w query) else Inl OperationalError)"

definition set_to_l2 :: "world \<Rightarrow> string \<Rightarrow> string \<Rightarrow> error + world" where
  "set_to_l2 w query response =
     (if db_write_ok w then Inr (w\<lparr>cache := (cache w)(query \<mapsto> response)\<rparr>)
      else Inl OperationalError)"

subsection \<open>The pipeline of agent.py\<close>

text \<open>\<open>[documents[i] for i in indices[0] if i != -1]\<close>\<close>

fun hits_of :: "string list \<Rightarrow> int list \<Rightarrow> error + string list" where
  "hits_of docs [] = Inr []"
| "hits_of docs (i # is) =
     (if i \<noteq> - 1 then
        (case py_index docs i of
           Inl e \<Rightarrow> Inl e
         | Inr d \<Rightarrow> (case hits_of docs is of Inl e \<Rightarrow> Inl e | Inr ds \<Rightarrow> Inr (d # ds)))
      else hits_of docs is)"

definition search_faiss ::
  "capabilities \<Rightarrow> world \<Rightarrow> string \<Rightarrow> nat \<Rightarrow> (error + string list) \<times> world" where
  "search_faiss caps w query k =
     (let w' = w\<lparr>retrieval_calls := retrieval_calls w + 1\<rparr>
      in case index_search caps (retrieval_calls w) query k of
           None \<Rightarrow> (Inl RetrievalError, w')
         | Some indices \<Rightarrow> (hits_of (documents caps) indices, w'))"

definition answer_prompt :: "string \<Rightarrow> string \<Rightarrow> string" where
  "answer_prompt query context =
     newline @ ''You are an expert mining assistant.'' @ newline @ newline
     @ ''User question:'' @ newline @ query @ newline @ newline
     @ ''Relevant mining documents:'' @ newline @ context @ newline @ newline
     @ ''Answer concisely, factually, and directly.'' @ newline"

definition generate_answer ::
  "capabilities \<Rightarrow> world \<Rightarrow> string \<Rightarrow> string list \<Rightarrow> (error + string) \<times> world" where
  "generate_answer caps w query context_docs =
     (let context = join (newline @ newline) context_docs;
          prompt = answer_prompt query context;
          w' = w\<lparr>generation_calls := generation_calls w + 1\<rparr>
      in case generate_content caps (generation_calls w) prompt of
           None \<Rightarrow> (Inl GenerationError, w')
         | Some text \<Rightarrow> (Inr text, w'))"

definition ask :: "capabilities \<Rightarrow> world \<Rightarrow> string \<Rightarrow> (error + string) \<times> world" where
  "ask caps w query =
     (case search_faiss caps w query 5 of
        (Inl e, w') \<Rightarrow> (Inl e, w')
      | (Inr context_docs, w') \<Rightarrow> generate_answer caps w' query context_docs)"

subsection \<open>cached_ask\<close>

text \<open>
  The coroutine has one suspension point, \<open>await asyncio.to_thread(ask, query)\<close>. What
  it does before (the two lookups) and after (the two writes) runs without
  interruption on the event loop.
\<close>

datatype lookup = Hit string | Miss | Raised error

text \<open>Lines 82 to 86: the L2 lookup and the promotion.\<close>

definition cached_ask_l2 :: "nat \<Rightarrow> world \<Rightarrow> string \<Rightarrow> lookup \<times> world" where
  "cached_ask_l2 cap w query =
     (case get_from_l2 w query of
        Inl e \<Rightarrow> (Raised e, w)
      | Inr result \<Rightarrow>
          (if truthy result then
             (case set_to_l1 cap (lru_cache_store w) query (the result) of
                Inl e \<Rightarrow> (Raised RuntimeError, w)
              | Inr d \<Rightarrow> (Hit (the result), w\<lparr>lru_cache_store := d\<rparr>))
           else (Miss, w)))"

text \<open>Lines 77 to 86.\<close>

definition cached_ask_lookup :: "nat \<Rightarrow> world \<Rightarrow> string \<Rightarrow> lookup \<times> world" where
  "cached_ask_lookup cap w query =
     (let result = get_from_l1 (lru_cache_store w) query
      in if truthy result then (Hit (the result), w)
         else cached_ask_l2 cap w query)"

text \<open>Lines 90 to 95, with the value that \<open>ask\<close> returned.\<close>

definition cached_ask_store ::
  "nat \<Rightarrow> world \<Rightarrow> string \<Rightarrow> string \<Rightarrow> (error + string) \<times> world" where
  "cached_ask_store cap w query result =
     (let result_str = strip result
      in case set_to_l2 w query result_str of
           Inl e \<Rightarrow> (Inl e, w)
         | Inr w2 \<Rightarrow>
             (case set_to_l1 cap (lru_cache_store w2) query result_str of
                Inl e \<Rightarrow> (Inl RuntimeError, w2)
              | Inr d \<Rightarrow> (Inr result_str, w2\<lparr>lru_cache_store := d\<rparr>)))"

text \<open>One call that nothing interrupts.\<close>

definition cached_ask ::
  "nat \<Rightarrow> capabilities \<Rightarrow> world \<Rightarrow> string \<Rightarrow> (error + string) \<times> world" where
  "cached_ask cap caps w query =
     (case cached_ask_lookup cap w query of
        (Hit result, w1) \<Rightarrow> (Inr result, w1)
      | (Raised e, w1) \<Rightarrow> (Inl e, w1)
      | (Miss, w1) \<Rightarrow>
          (case ask caps w1 query of
             (Inl e, w2) \<Rightarrow> (Inl e, w2)
           | (Inr result, w2) \<Rightarrow> cached_ask_store cap w2 query result))"

subsection \<open>Concurrent calls\<close>

text \<open>
  A call of \<open>cached_ask\<close> that runs beside others is in one of four states: not yet
  started; suspended with its pipeline handed to a thread; suspended with the
  pipeline's outcome ready; returned. A step of the event loop (or of the thread)
  takes one call from one state to the next.
\<close>

datatype call =
    Pending string
  | InFlight string
  | Returned string "error + string"
  | Finished "error + string"

fun call_step :: "nat \<Rightarrow> capabilities \<Rightarrow> world \<Rightarrow> call \<Rightarrow> call \<times> world" where
  "call_step cap caps w (Pending query) =
     (case cached_ask_lookup cap w query of
        (Hit result, w1) \<Rightarrow> (Finished (Inr result), w1)
      | (Raised e, w1) \<Rightarrow> (Finished (Inl e), w1)
      | (Miss, w1) \<Rightarrow> (InFlight query, w1))"
| "call_step cap caps w (InFlight query) =
     (case ask caps w query of (outcome, w1) \<Rightarrow> (Returned query outcome, w1))"
| "call_step cap caps w (Returned query (Inl e)) = (Finished (Inl e), w)"
| "call_step cap caps w (Returned query (Inr result)) =
     (case cached_ask_store cap w query result of (r, w1) \<Rightarrow> (Finished r, w1))"
| "call_step cap caps w (Finished r) = (Finished r, w)"

text \<open>
  A schedule is the list of the positions of the tasks that take a step, in the order
  in which they take it.
\<close>

fun run :: "(world \<Rightarrow> 't \<Rightarrow> 't \<times> world) \<Rightarrow> nat list \<Rightarrow> 't list \<times> world \<Rightarrow> 't list \<times> world" where
  "run step [] (ts, w) = (ts, w)"
| "run step (i # sched) (ts, w) =
     (if i < length ts then
        (case step w (ts ! i) of (t', w') \<Rightarrow> run step sched (ts[i := t'], w'))
      else run step sched (ts, w))"


subsection \<open>The /updates handler\<close>


datatype analysis = Answer string | ErrorText error













subsection \<open>Concrete states and collaborators for the examples\<close>

definition world0 :: world where
  "world0 = \<lparr>lru_cache_store = [], cache = Map.empty, db_ok = True, db_write_ok = True,
             retrieval_calls = 0, generation_calls = 0\<rparr>"

definition demo_caps :: capabilities where
  "demo_caps =
     \<lparr>documents = [''doc A'', ''doc B''],
      index_search = (\<lambda>n query k. Some [0, 1, - 1]),
      generate_content = (\<lambda>n prompt. Some ''Risk: High''),
      http_get = (\<lambda>lnk. None),
      find_paragraphs = (\<lambda>text. [])\<rparr>"

definition inconsistent_world :: world where
  "inconsistent_world = world0\<lparr>lru_cache_store := [(''k'', '''')], cache := [''k'' \<mapsto> ''x'']\<rparr>"

definition offline_world :: world where
  "offline_world = world0\<lparr>db_ok := False, db_write_ok := False\<rparr>"


definition blank_caps :: capabilities where
  "blank_caps = demo_caps\<lparr>generate_content :=
     (\<lambda>n prompt. if n = 0 then Some ''  '' else Some ''Risk: High'')\<rparr>"

definition failing_caps :: capabilities where
  "failing_caps = demo_caps\<lparr>generate_content := (\<lambda>n prompt. None)\<rparr>"

definition hit_world :: world where
  "hit_world = world0\<lparr>lru_cache_store := [(''k'', ''fast'')], cache := [''k'' \<mapsto> ''durable'']\<rparr>"

definition l2_only_world :: world where
  "l2_only_world = world0\<lparr>cache := [''k'' \<mapsto> ''durable'']\<rparr>"

definition blank_world :: world where
  "blank_world = world0\<lparr>lru_cache_store := [(''k'', '''')], cache := [''k'' \<mapsto> '''']\<rparr>"

definition asked_world :: world where
  "asked_world = world0\<lparr>retrieval_calls := 1, generation_calls := 1\<rparr>"

subsection \<open>Notions used in the proofs\<close>











section \<open>Properties of the L1 store\<close>

lemma dict_set_length_le: "length (dict_set d k v) \<le> Suc (length d)"
  by (induction d) auto

lemma dict_set_new: "k \<notin> fst ` set d \<Longrightarrow> dict_set d k v = d @ [(k, v)]"
  by (induction d) auto

lemma map_of_dict_set: "map_of (dict_set d k v) = (map_of d)(k \<mapsto> v)"
  by (induction d) auto

lemma dict_set_map_fst:
  "map fst (dict_set d k v) = (if k \<in> set (map fst d) then map fst d else map fst d @ [k])"
  by (induction d) force+

lemma dict_set_length_old: "k \<in> fst ` set d \<Longrightarrow> length (dict_set d k v) = length d"
  using arg_cong [OF dict_set_map_fst [of d k v], of length] by (simp split: if_splits)

lemma set_to_l1_full:
  "cap \<le> Suc (length rest) \<Longrightarrow>
   set_to_l1 cap ((k0, v0) # rest) k v = Inr (dict_set rest k v)"
  by (simp add: set_to_l1_def)

lemma set_to_l1_room:
  "length d < cap \<Longrightarrow> set_to_l1 cap d k v = Inr (dict_set d k v)"
  by (simp add: set_to_l1_def)

lemma set_to_l1_length:
  assumes "length d \<le> cap" and "set_to_l1 cap d k v = Inr d'"
  shows "length d' \<le> cap"
proof (cases "length d < cap")
  case True
  then have "d' = dict_set d k v" using assms(2) by (simp add: set_to_l1_room)
  then show ?thesis using True dict_set_length_le [of d k v] by simp
next
  case False
  then obtain k0 v0 rest where d: "d = (k0, v0) # rest"
    using assms by (cases d) (auto simp: set_to_l1_def)
  then have "d' = dict_set rest k v" using assms(2) False by (simp add: set_to_l1_full)
  then show ?thesis using d assms(1) dict_set_length_le [of rest k v] by simp
qed

lemma set_to_l1_lookup:
  "set_to_l1 cap d k v = Inr d' \<Longrightarrow> get_from_l1 d' k = Some v"
  by (auto simp: set_to_l1_def get_from_l1_def map_of_dict_set split: if_splits list.splits)

lemma set_to_l1_ok: "0 < cap \<Longrightarrow> \<exists>d'. set_to_l1 cap d k v = Inr d'"
  by (auto simp: set_to_l1_def split: list.splits)

lemma l1_apply_length: "length d \<le> cap \<Longrightarrow> length (l1_apply cap d x) \<le> cap"
  by (cases x) (auto split: sum.splits dest: set_to_l1_length)

lemma l1_run_length: "length d \<le> cap \<Longrightarrow> length (l1_run cap d xs) \<le> cap"
  by (induction xs arbitrary: d) (auto simp: l1_apply_length)

lemma l1_run_append: "l1_run cap d (xs @ ys) = l1_run cap (l1_run cap d xs) ys"
  by (induction xs arbitrary: d) auto

lemma set_all_to_l1_fresh:
  "0 < cap \<Longrightarrow> length d \<le> cap \<Longrightarrow> distinct (map fst (d @ kvs)) \<Longrightarrow>
   set_all_to_l1 cap d kvs = Inr (drop (length d + length kvs - cap) (d @ kvs))"
proof (induction kvs arbitrary: d)
  case Nil
  then show ?case by simp
next
  case (Cons kv kvs)
  obtain k v where kv: "kv = (k, v)" by (cases kv)
  have fresh: "k \<notin> fst ` set d" using Cons.prems(3) kv by auto
  show ?case
  proof (cases "length d < cap")
    case True
    have step: "set_to_l1 cap d k v = Inr (d @ [(k, v)])"
      using True fresh by (simp add: set_to_l1_room dict_set_new)
    have "set_all_to_l1 cap (d @ [(k, v)]) kvs =
          Inr (drop (length (d @ [(k, v)]) + length kvs - cap) ((d @ [(k, v)]) @ kvs))"
      using Cons.prems True kv by (intro Cons.IH) auto
    then show ?thesis using step kv by simp
  next
    case False
    then obtain k0 v0 rest where d: "d = (k0, v0) # rest"
      using Cons.prems(1) by (cases d) auto
    have len: "length rest + 1 = cap" using False Cons.prems(2) d by simp
    have fresh': "k \<notin> fst ` set rest" using fresh d by simp
    have step: "set_to_l1 cap d k v = Inr (rest @ [(k, v)])"
      using len fresh' d by (simp add: set_to_l1_full dict_set_new)
    have "set_all_to_l1 cap (rest @ [(k, v)]) kvs =
          Inr (drop (length (rest @ [(k, v)]) + length kvs - cap) ((rest @ [(k, v)]) @ kvs))"
      using Cons.prems len kv d by (intro Cons.IH) auto
    moreover have "length (rest @ [(k, v)]) + length kvs - cap = length kvs"
      using len by simp
    moreover have "length d + length (kv # kvs) - cap = Suc (length kvs)"
      using len d by simp
    moreover have "drop (Suc (length kvs)) (d @ kv # kvs) = drop (length kvs) ((rest @ [(k, v)]) @ kvs)"
      using d kv by simp
    ultimately show ?thesis using step kv by (simp del: drop_append append_assoc)
  qed
qed

text \<open>
  C5. The L1 store never holds more than \<open>cap\<close> entries: a store within its capacity
  stays within it after any sequence of gets and puts, and after a single put.
  Inserting \<open>cap + 1\<close> entries with distinct keys into an empty store of capacity
  \<open>cap\<close> leaves exactly the last \<open>cap\<close> of them, in their order: the one entry that
  is gone is the first that was inserted. A get, anywhere in a sequence of operations,
  changes neither the content nor the order of the store.
\<close>

theorem l1_capacity_fifo:
  "(length d \<le> cap \<longrightarrow> length (l1_run cap d ops) \<le> cap)
   \<and> (length d \<le> cap \<and> set_to_l1 cap d q r = Inr d' \<longrightarrow> length d' \<le> cap)
   \<and> (0 < cap \<and> length kvs = cap + 1 \<and> distinct (map fst kvs) \<longrightarrow>
        set_all_to_l1 cap [] kvs = Inr (tl kvs) \<and> length (tl kvs) = cap
        \<and> get_from_l1 (tl kvs) (fst (hd kvs)) = None
        \<and> (\<forall>(k, v) \<in> set (tl kvs). get_from_l1 (tl kvs) k = Some v))
   \<and> l1_run cap d (ops @ Get g # ops') = l1_run cap d (ops @ ops')"
proof (intro conjI impI)
  show "length (l1_run cap d ops) \<le> cap" if "length d \<le> cap"
    using that by (rule l1_run_length)
  show "length d' \<le> cap" if "length d \<le> cap \<and> set_to_l1 cap d q r = Inr d'"
    using that set_to_l1_length by blast
  show "l1_run cap d (ops @ Get g # ops') = l1_run cap d (ops @ ops')"
    by (simp add: l1_run_append)
next
  assume h: "0 < cap \<and> length kvs = cap + 1 \<and> distinct (map fst kvs)"
  then obtain kv rest where kvs: "kvs = kv # rest" by (cases kvs) auto
  have dist: "distinct (map fst rest)" and first: "fst kv \<notin> fst ` set rest"
    using h kvs by auto
  show "set_all_to_l1 cap [] kvs = Inr (tl kvs)"
    using h kvs set_all_to_l1_fresh [of cap "[]" kvs] by simp
  show "length (tl kvs) = cap" using h by simp
  show "get_from_l1 (tl kvs) (fst (hd kvs)) = None"
    using first kvs by (simp add: get_from_l1_def map_of_eq_None_iff)
  show "\<forall>(k, v) \<in> set (tl kvs). get_from_l1 (tl kvs) k = Some v"
    using dist kvs by (auto simp: get_from_l1_def)
qed

theorem l1_capacity_fifo_witness:
  "length ([] :: (string \<times> string) list) \<le> 2
   \<and> length (l1_run 2 [] [Put ''a'' ''1'', Put ''b'' ''2'', Get ''a'', Put ''c'' ''3'']) \<le> 2
   \<and> set_to_l1 2 [] ''q'' ''r'' = Inr [(''q'', ''r'')]
   \<and> (0::nat) < 2 \<and> length [(''a'', ''1''), (''b'', ''2''), (''c'', ''3'')] = 2 + 1
   \<and> distinct (map fst [(''a'', ''1''), (''b'', ''2''), (''c'', ''3'')])
   \<and> set_all_to_l1 2 [] [(''a'', ''1''), (''b'', ''2''), (''c'', ''3'')]
       = Inr [(''b'', ''2''), (''c'', ''3'')]
   \<and> get_from_l1 [(''b'', ''2''), (''c'', ''3'')] ''a'' = None
   \<and> get_from_l1 [(''b'', ''2''), (''c'', ''3'')] ''c'' = Some ''3''
   \<and> l1_run 2 [] ([Put ''a'' ''1'', Put ''b'' ''2''] @ Get ''a'' # [Put ''c'' ''3''])
       = [(''b'', ''2''), (''c'', ''3'')]"
  using l1_capacity_fifo [of "[]" 2 "[Put ''a'' ''1'', Put ''b'' ''2'']"
      "''q''" "''r''" "[(''q'', ''r'')]" "[(''a'', ''1''), (''b'', ''2''), (''c'', ''3'')]"
      "''a''" "[Put ''c'' ''3'']"]
  by (simp add: set_to_l1_def get_from_l1_def)

text \<open>
  C6. What \<open>set_to_l1\<close> does for a key that is already in a full store: it removes the
  oldest entry all the same. When the key is not the oldest one, the oldest entry is
  lost although no room was needed, and the store is left with \<open>cap - 1\<close> entries.
\<close>

theorem set_to_l1_overwrite_evicts:
  assumes "length rest + 1 = cap" and "k \<noteq> k0"
    and "k \<in> fst ` set rest" and "k0 \<notin> fst ` set rest"
  shows "set_to_l1 cap ((k0, v0) # rest) k v = Inr (dict_set rest k v)
     \<and> get_from_l1 (dict_set rest k v) k0 = None
     \<and> get_from_l1 (dict_set rest k v) k = Some v
     \<and> length (dict_set rest k v) = cap - 1"
proof -
  have "set_to_l1 cap ((k0, v0) # rest) k v = Inr (dict_set rest k v)"
    using assms(1) by (simp add: set_to_l1_full)
  moreover have "get_from_l1 (dict_set rest k v) k0 = None"
    using assms(2,4) by (simp add: get_from_l1_def map_of_dict_set map_of_eq_None_iff)
  moreover have "get_from_l1 (dict_set rest k v) k = Some v"
    by (simp add: get_from_l1_def map_of_dict_set)
  moreover have "length (dict_set rest k v) = cap - 1"
    using assms(1,3) by (simp add: dict_set_length_old)
  ultimately show ?thesis by simp
qed

theorem set_to_l1_overwrite_evicts_witness:
  "length [(''b'', ''2'')] + 1 = (2::nat) \<and> ''b'' \<noteq> ''a''
   \<and> ''b'' \<in> fst ` set [(''b'', ''2'')] \<and> ''a'' \<notin> fst ` set [(''b'', ''2'')]
   \<and> set_to_l1 2 [(''a'', ''1''), (''b'', ''2'')] ''b'' ''new'' = Inr [(''b'', ''new'')]
   \<and> get_from_l1 [(''b'', ''new'')] ''a'' = None"
  using set_to_l1_overwrite_evicts [of "[(''b'', ''2'')]" 2 "''b''" "''a''" "''1''" "''new''"]
  by simp

section \<open>Properties of cached_ask\<close>

lemma ask_caches:
  "ask caps w q = (r, w1) \<Longrightarrow>
   lru_cache_store w1 = lru_cache_store w \<and> cache w1 = cache w \<and> db_ok w1 = db_ok w
   \<and> db_write_ok w1 = db_write_ok w
   \<and> retrieval_calls w1 = retrieval_calls w + 1"
  by (auto simp: ask_def search_faiss_def generate_answer_def Let_def
      split: option.splits sum.splits prod.splits)

lemma lookup_hit:
  "get_from_l1 (lru_cache_store w) q = Some r \<Longrightarrow> r \<noteq> [] \<Longrightarrow>
   cached_ask_lookup cap w q = (Hit r, w)"
  by (simp add: cached_ask_lookup_def)

lemma lookup_l2:
  "\<not> truthy (get_from_l1 (lru_cache_store w) q) \<Longrightarrow>
   cached_ask_lookup cap w q = cached_ask_l2 cap w q"
  by (simp add: cached_ask_lookup_def)

lemma lookup_miss:
  "\<not> truthy (get_from_l1 (lru_cache_store w) q) \<Longrightarrow> get_from_l2 w q = Inr v \<Longrightarrow>
   \<not> truthy v \<Longrightarrow> cached_ask_lookup cap w q = (Miss, w)"
  by (simp add: cached_ask_lookup_def cached_ask_l2_def)

lemma lookup_promote:
  "\<not> truthy (get_from_l1 (lru_cache_store w) q) \<Longrightarrow> get_from_l2 w q = Inr (Some r) \<Longrightarrow>
   r \<noteq> [] \<Longrightarrow> set_to_l1 cap (lru_cache_store w) q r = Inr d \<Longrightarrow>
   cached_ask_lookup cap w q = (Hit r, w\<lparr>lru_cache_store := d\<rparr>)"
  by (simp add: cached_ask_lookup_def cached_ask_l2_def)

lemma lookup_raise:
  "\<not> truthy (get_from_l1 (lru_cache_store w) q) \<Longrightarrow> get_from_l2 w q = Inl e \<Longrightarrow>
   cached_ask_lookup cap w q = (Raised e, w)"
  by (simp add: cached_ask_lookup_def cached_ask_l2_def)

lemmas eval_defs = cached_ask_def cached_ask_lookup_def cached_ask_l2_def cached_ask_store_def
  get_from_l1_def get_from_l2_def set_to_l1_def set_to_l2_def ask_def search_faiss_def
  generate_answer_def py_index_def strip_def isspace_def L1_CACHE_SIZE_def
  world0_def demo_caps_def Let_def

lemma store_counters:
  "cached_ask_store cap w q a = (r, w1) \<Longrightarrow>
   retrieval_calls w1 = retrieval_calls w \<and> generation_calls w1 = generation_calls w
   \<and> db_ok w1 = db_ok w \<and> db_write_ok w1 = db_write_ok w"
  by (auto simp: cached_ask_store_def set_to_l2_def Let_def split: sum.splits if_splits)

lemma store_success:
  assumes "cached_ask_store cap w q a = (Inr r, w1)"
  shows "get_from_l1 (lru_cache_store w1) q = Some r \<and> cache w1 q = Some r
     \<and> db_ok w1 = db_ok w"
  using assms
  by (auto simp: cached_ask_store_def set_to_l2_def Let_def set_to_l1_lookup
      split: sum.splits if_splits)

lemma truthy_the: "truthy v \<Longrightarrow> the v \<noteq> []"
  by (cases v) auto

lemma cached_ask_success_l1:
  assumes "cached_ask cap caps w q = (Inr r, w1)"
  shows "get_from_l1 (lru_cache_store w1) q = Some r"
proof (cases "truthy (get_from_l1 (lru_cache_store w) q)")
  case True
  then show ?thesis using assms
    by (cases "get_from_l1 (lru_cache_store w) q") (auto simp: cached_ask_def cached_ask_lookup_def)
next
  case False
  show ?thesis
  proof (cases "cached_ask_l2 cap w q")
    case (Pair l w')
    show ?thesis
    proof (cases l)
      case (Hit x)
      then show ?thesis using assms False Pair
        by (auto simp: cached_ask_def lookup_l2 cached_ask_l2_def set_to_l1_lookup
            split: sum.splits if_splits)
    next
      case Miss
      then show ?thesis using assms False Pair
        by (auto simp: cached_ask_def lookup_l2 split: prod.splits sum.splits
            dest: store_success)
    next
      case (Raised e)
      then show ?thesis using assms False Pair by (simp add: cached_ask_def lookup_l2)
    qed
  qed
qed


lemma failing_ask:
  "ask failing_caps world0 ''gas leak risk'' = (Inl GenerationError, asked_world)"
  by (simp add: ask_def search_faiss_def generate_answer_def py_index_def world0_def
      demo_caps_def failing_caps_def asked_world_def Let_def)





text \<open>
  C2 (as the code has it). \<open>cached_ask\<close> asks L1 first. A key that L1 holds with a
  non-empty value is answered from L1 and nothing else happens: the state of the
  process, the counters included, is the same, whatever L2 holds and whether or not
  the database can be reached. When L1 has no non-empty value for the key and L2 has
  one, that value is written into L1 and returned. So a key that both tiers hold with
  different values is answered with the value of L1, provided that value is not the
  empty text.
\<close>

theorem cached_ask_tiers:
  "(get_from_l1 (lru_cache_store w) q = Some r \<and> r \<noteq> [] \<longrightarrow>
      cached_ask cap caps w q = (Inr r, w))
   \<and> (\<not> truthy (get_from_l1 (lru_cache_store w) q) \<and> get_from_l2 w q = Inr (Some r)
        \<and> r \<noteq> [] \<and> 0 < cap \<longrightarrow>
      (\<exists>d. set_to_l1 cap (lru_cache_store w) q r = Inr d
         \<and> cached_ask cap caps w q = (Inr r, w\<lparr>lru_cache_store := d\<rparr>)
         \<and> get_from_l1 d q = Some r))
   \<and> (get_from_l1 (lru_cache_store w) q = Some r \<and> get_from_l2 w q = Inr (Some r')
        \<and> r \<noteq> r' \<and> r \<noteq> [] \<longrightarrow>
      fst (cached_ask cap caps w q) = Inr r)"
proof (intro conjI impI)
  assume "get_from_l1 (lru_cache_store w) q = Some r \<and> r \<noteq> []"
  then show "cached_ask cap caps w q = (Inr r, w)"
    by (simp add: cached_ask_def lookup_hit)
next
  assume h: "\<not> truthy (get_from_l1 (lru_cache_store w) q) \<and> get_from_l2 w q = Inr (Some r)
    \<and> r \<noteq> [] \<and> 0 < cap"
  then obtain d where d: "set_to_l1 cap (lru_cache_store w) q r = Inr d"
    using set_to_l1_ok by blast
  then have "cached_ask cap caps w q = (Inr r, w\<lparr>lru_cache_store := d\<rparr>)"
    using h by (simp add: cached_ask_def lookup_promote)
  then show "\<exists>d. set_to_l1 cap (lru_cache_store w) q r = Inr d
         \<and> cached_ask cap caps w q = (Inr r, w\<lparr>lru_cache_store := d\<rparr>)
         \<and> get_from_l1 d q = Some r"
    using d set_to_l1_lookup by blast
next
  assume "get_from_l1 (lru_cache_store w) q = Some r \<and> get_from_l2 w q = Inr (Some r')
        \<and> r \<noteq> r' \<and> r \<noteq> []"
  then show "fst (cached_ask cap caps w q) = Inr r"
    by (simp add: cached_ask_def lookup_hit)
qed

theorem cached_ask_tiers_witness:
  "get_from_l1 (lru_cache_store hit_world) ''k'' = Some ''fast'' \<and> ''fast'' \<noteq> []
   \<and> get_from_l2 hit_world ''k'' = Inr (Some ''durable'') \<and> ''fast'' \<noteq> ''durable''
   \<and> cached_ask L1_CACHE_SIZE demo_caps hit_world ''k'' = (Inr ''fast'', hit_world)
   \<and> \<not> truthy (get_from_l1 (lru_cache_store l2_only_world) ''k'')
   \<and> get_from_l2 l2_only_world ''k'' = Inr (Some ''durable'') \<and> ''durable'' \<noteq> []
   \<and> 0 < L1_CACHE_SIZE
   \<and> cached_ask L1_CACHE_SIZE demo_caps l2_only_world ''k''
       = (Inr ''durable'', l2_only_world\<lparr>lru_cache_store := [(''k'', ''durable'')]\<rparr>)"
proof -
  have h1: "get_from_l1 (lru_cache_store hit_world) ''k'' = Some ''fast''"
    and h2: "get_from_l2 hit_world ''k'' = Inr (Some ''durable'')"
    and m1: "\<not> truthy (get_from_l1 (lru_cache_store l2_only_world) ''k'')"
    and m2: "get_from_l2 l2_only_world ''k'' = Inr (Some ''durable'')"
    and p: "set_to_l1 L1_CACHE_SIZE (lru_cache_store l2_only_world) ''k'' ''durable''
             = Inr [(''k'', ''durable'')]"
    and c: "0 < L1_CACHE_SIZE"
    by (simp_all add: hit_world_def l2_only_world_def world0_def get_from_l1_def
        get_from_l2_def set_to_l1_def L1_CACHE_SIZE_def)
  have "cached_ask L1_CACHE_SIZE demo_caps hit_world ''k'' = (Inr ''fast'', hit_world)"
    using h1 cached_ask_tiers [where w = hit_world and q = "''k''" and r = "''fast''"
        and cap = L1_CACHE_SIZE and caps = demo_caps]
    by simp
  moreover have "cached_ask L1_CACHE_SIZE demo_caps l2_only_world ''k''
       = (Inr ''durable'', l2_only_world\<lparr>lru_cache_store := [(''k'', ''durable'')]\<rparr>)"
    using m1 m2 p c cached_ask_tiers [where w = l2_only_world and q = "''k''"
        and r = "''durable''" and cap = L1_CACHE_SIZE and caps = demo_caps]
    by auto
  ultimately show ?thesis using h1 h2 m1 m2 c by simp
qed

text \<open>
  A key that L1 holds with the empty text and L2 with another value is answered with
  the value of L2.
\<close>

theorem cached_ask_l1_first_counterexample:
  "fst (cached_ask L1_CACHE_SIZE demo_caps inconsistent_world ''k'') = Inr ''x''
   \<and> get_from_l1 (lru_cache_store inconsistent_world) ''k'' = Some ''''
   \<and> get_from_l2 inconsistent_world ''k'' = Inr (Some ''x'')"
  by (simp add: eval_defs inconsistent_world_def)



text \<open>
  C4 (as the code has it). After a call of \<open>cached_ask\<close> that returned a non-empty
  text, a second call for the same key returns the same text and leaves the state as
  it is: neither the retrieval nor the generation capability is called again.
\<close>

theorem cached_ask_idempotent:
  assumes "cached_ask cap caps w q = (Inr r, w1)" and "r \<noteq> []"
  shows "cached_ask cap caps w1 q = (Inr r, w1)
     \<and> retrieval_calls (snd (cached_ask cap caps w1 q)) = retrieval_calls w1
     \<and> generation_calls (snd (cached_ask cap caps w1 q)) = generation_calls w1"
proof -
  have "get_from_l1 (lru_cache_store w1) q = Some r"
    using assms(1) by (rule cached_ask_success_l1)
  then have "cached_ask cap caps w1 q = (Inr r, w1)"
    using assms(2) by (simp add: cached_ask_def lookup_hit)
  then show ?thesis by simp
qed

theorem cached_ask_idempotent_witness:
  "cached_ask L1_CACHE_SIZE demo_caps world0 ''gas leak risk''
     = (Inr ''Risk: High'', snd (cached_ask L1_CACHE_SIZE demo_caps world0 ''gas leak risk''))
   \<and> ''Risk: High'' \<noteq> []
   \<and> cached_ask L1_CACHE_SIZE demo_caps
        (snd (cached_ask L1_CACHE_SIZE demo_caps world0 ''gas leak risk'')) ''gas leak risk''
     = (Inr ''Risk: High'', snd (cached_ask L1_CACHE_SIZE demo_caps world0 ''gas leak risk''))
   \<and> generation_calls (snd (cached_ask L1_CACHE_SIZE demo_caps
        (snd (cached_ask L1_CACHE_SIZE demo_caps world0 ''gas leak risk'')) ''gas leak risk'')) = 1"
proof -
  have first: "cached_ask L1_CACHE_SIZE demo_caps world0 ''gas leak risk''
     = (Inr ''Risk: High'', snd (cached_ask L1_CACHE_SIZE demo_caps world0 ''gas leak risk''))"
    by (simp add: eval_defs newline_def answer_prompt_def)
  have calls: "generation_calls (snd (cached_ask L1_CACHE_SIZE demo_caps world0 ''gas leak risk'')) = 1"
    by (simp add: eval_defs newline_def answer_prompt_def)
  show ?thesis
    using first calls cached_ask_idempotent [OF first] by simp
qed

text \<open>
  When the first answer strips to the empty text, the second call runs the pipeline
  again, and returns what the model answers that time.
\<close>

theorem cached_ask_idempotent_counterexample:
  "fst (cached_ask L1_CACHE_SIZE blank_caps world0 ''q'') = Inr ''''
   \<and> fst (cached_ask L1_CACHE_SIZE blank_caps
        (snd (cached_ask L1_CACHE_SIZE blank_caps world0 ''q'')) ''q'') = Inr ''Risk: High''
   \<and> generation_calls (snd (cached_ask L1_CACHE_SIZE blank_caps
        (snd (cached_ask L1_CACHE_SIZE blank_caps world0 ''q'')) ''q'')) = 2
   \<and> retrieval_calls (snd (cached_ask L1_CACHE_SIZE blank_caps
        (snd (cached_ask L1_CACHE_SIZE blank_caps world0 ''q'')) ''q'')) = 2"
  by (simp add: eval_defs blank_caps_def newline_def answer_prompt_def)

text \<open>
  C7. For a key that neither tier answers, when the pipeline raises: \<open>cached_ask\<close>
  raises the same exception, and L1 and L2 are what they were before the call.
\<close>

theorem cached_ask_failure_not_cached:
  assumes "\<not> truthy (get_from_l1 (lru_cache_store w) q)"
    and "get_from_l2 w q = Inr v" and "\<not> truthy v"
    and "ask caps w q = (Inl e, w1)"
  shows "cached_ask cap caps w q = (Inl e, w1)
     \<and> lru_cache_store w1 = lru_cache_store w \<and> cache w1 = cache w"
  using assms ask_caches [OF assms(4)] by (simp add: cached_ask_def lookup_miss)

theorem cached_ask_failure_not_cached_witness:
  "\<not> truthy (get_from_l1 (lru_cache_store world0) ''gas leak risk'')
   \<and> get_from_l2 world0 ''gas leak risk'' = Inr None \<and> \<not> truthy None
   \<and> ask failing_caps world0 ''gas leak risk'' = (Inl GenerationError, asked_world)
   \<and> cached_ask L1_CACHE_SIZE failing_caps world0 ''gas leak risk''
       = (Inl GenerationError, asked_world)
   \<and> lru_cache_store asked_world = [] \<and> cache asked_world = Map.empty"
proof -
  have l1: "\<not> truthy (get_from_l1 (lru_cache_store world0) ''gas leak risk'')"
    and l2: "get_from_l2 world0 ''gas leak risk'' = Inr None"
    by (simp_all add: world0_def get_from_l1_def get_from_l2_def)
  have n: "\<not> truthy None" by simp
  show ?thesis
    using l1 l2 failing_ask cached_ask_failure_not_cached [OF l1 l2 n failing_ask, of L1_CACHE_SIZE]
    by (simp add: world0_def)
qed

text \<open>
  C8 (as the code has it). When the database cannot be reached, \<open>get_from_l2\<close> raises
  \<open>OperationalError\<close>, which is not the \<open>None\<close> of an absent key. \<open>cached_ask\<close> does
  not handle it: for a key that L1 does not answer the exception reaches the caller,
  the pipeline is not run and the state is unchanged.
\<close>

theorem cached_ask_storage_error:
  "\<not> db_ok w \<longrightarrow>
     get_from_l2 w q = Inl OperationalError \<and> get_from_l2 w q \<noteq> Inr None
     \<and> (\<not> truthy (get_from_l1 (lru_cache_store w) q) \<longrightarrow>
          cached_ask cap caps w q = (Inl OperationalError, w))"
  by (simp add: get_from_l2_def cached_ask_def lookup_raise)

theorem cached_ask_storage_error_witness:
  "\<not> db_ok offline_world
   \<and> \<not> truthy (get_from_l1 (lru_cache_store offline_world) ''gas leak risk'')
   \<and> get_from_l2 offline_world ''gas leak risk'' = Inl OperationalError
   \<and> cached_ask L1_CACHE_SIZE demo_caps offline_world ''gas leak risk''
       = (Inl OperationalError, offline_world)"
proof -
  have d: "\<not> db_ok offline_world"
    and l1: "\<not> truthy (get_from_l1 (lru_cache_store offline_world) ''gas leak risk'')"
    by (simp_all add: offline_world_def world0_def get_from_l1_def)
  show ?thesis
    using d l1 cached_ask_storage_error [of offline_world "''gas leak risk''" L1_CACHE_SIZE demo_caps]
    by simp
qed

text \<open>
  With the database unreachable the call for an uncached key raises, where the same
  call with the database reachable returns the answer of the pipeline.
\<close>

theorem cached_ask_storage_counterexample:
  "cached_ask L1_CACHE_SIZE demo_caps offline_world ''gas leak risk''
     = (Inl OperationalError, offline_world)
   \<and> fst (cached_ask L1_CACHE_SIZE demo_caps world0 ''gas leak risk'') = Inr ''Risk: High''"
  by (simp add: eval_defs offline_world_def newline_def answer_prompt_def)

text \<open>
  C10. An empty text in the cache counts as no entry. For a key that L1 and L2 both
  hold with the empty text, \<open>cached_ask\<close> does what it does on a miss: it runs the
  pipeline (one more retrieval call) and stores the outcome. A call that returned the
  empty text leaves the empty text in both tiers, so the next call for the key runs the
  pipeline again.
\<close>

theorem cached_ask_empty_value_is_absent:
  "(get_from_l1 (lru_cache_store w) q = Some [] \<and> get_from_l2 w q = Inr (Some []) \<longrightarrow>
      cached_ask cap caps w q =
        (case ask caps w q of
           (Inl e, w2) \<Rightarrow> (Inl e, w2)
         | (Inr a, w2) \<Rightarrow> cached_ask_store cap w2 q a)
      \<and> retrieval_calls (snd (cached_ask cap caps w q)) = retrieval_calls w + 1)
   \<and> (cached_ask cap caps w q = (Inr [], w1) \<longrightarrow>
      get_from_l1 (lru_cache_store w1) q = Some [] \<and> get_from_l2 w1 q = Inr (Some [])
      \<and> retrieval_calls (snd (cached_ask cap caps w1 q)) = retrieval_calls w1 + 1)"
proof -
  have rerun: "cached_ask cap caps u q =
        (case ask caps u q of
           (Inl e, w2) \<Rightarrow> (Inl e, w2)
         | (Inr a, w2) \<Rightarrow> cached_ask_store cap w2 q a)
      \<and> retrieval_calls (snd (cached_ask cap caps u q)) = retrieval_calls u + 1"
    if l1: "get_from_l1 (lru_cache_store u) q = Some []"
      and l2: "get_from_l2 u q = Inr (Some [])" for u
  proof -
    have miss: "cached_ask_lookup cap u q = (Miss, u)"
      using l1 l2 by (simp add: lookup_miss)
    then have eq: "cached_ask cap caps u q =
        (case ask caps u q of
           (Inl e, w2) \<Rightarrow> (Inl e, w2)
         | (Inr a, w2) \<Rightarrow> cached_ask_store cap w2 q a)"
      by (simp add: cached_ask_def)
    obtain o' u1 where a: "ask caps u q = (o', u1)" by (cases "ask caps u q")
    have "retrieval_calls (snd (cached_ask cap caps u q)) = retrieval_calls u + 1"
    proof (cases o')
      case (Inl e)
      then show ?thesis using eq a ask_caches [OF a] by simp
    next
      case (Inr x)
      obtain r u2 where s: "cached_ask_store cap u1 q x = (r, u2)"
        by (cases "cached_ask_store cap u1 q x")
      then show ?thesis using eq a Inr ask_caches [OF a] store_counters [OF s] by simp
    qed
    then show ?thesis using eq by simp
  qed
  have after: "get_from_l1 (lru_cache_store w1) q = Some [] \<and> get_from_l2 w1 q = Inr (Some [])"
    if h: "cached_ask cap caps w q = (Inr [], w1)"
  proof -
    have l1: "get_from_l1 (lru_cache_store w1) q = Some []"
      using h by (rule cached_ask_success_l1)
    have nohit: "\<not> truthy (get_from_l1 (lru_cache_store w) q)"
      using h by (cases "get_from_l1 (lru_cache_store w) q")
        (auto simp: cached_ask_def cached_ask_lookup_def split: if_splits)
    have "cache w1 q = Some [] \<and> db_ok w1"
      using h nohit
      by (auto simp: cached_ask_def lookup_l2 cached_ask_l2_def get_from_l2_def
          split: prod.splits sum.splits if_splits lookup.splits
          dest: store_success truthy_the ask_caches)
    then show ?thesis using l1 by (simp add: get_from_l2_def)
  qed
  show ?thesis using rerun [of w] rerun [of w1] after by blast
qed

theorem cached_ask_empty_value_is_absent_witness:
  "get_from_l1 (lru_cache_store blank_world) ''k'' = Some []
   \<and> get_from_l2 blank_world ''k'' = Inr (Some [])
   \<and> retrieval_calls (snd (cached_ask L1_CACHE_SIZE demo_caps blank_world ''k''))
       = retrieval_calls blank_world + 1
   \<and> fst (cached_ask L1_CACHE_SIZE demo_caps blank_world ''k'') = Inr ''Risk: High''
   \<and> fst (cached_ask L1_CACHE_SIZE blank_caps world0 ''q'') = Inr []
   \<and> retrieval_calls (snd (cached_ask L1_CACHE_SIZE blank_caps
        (snd (cached_ask L1_CACHE_SIZE blank_caps world0 ''q'')) ''q'')) = 2"
proof -
  have blank: "fst (cached_ask L1_CACHE_SIZE blank_caps world0 ''q'') = Inr []"
    by (simp add: eval_defs blank_caps_def newline_def answer_prompt_def)
  then have first: "cached_ask L1_CACHE_SIZE blank_caps world0 ''q''
      = (Inr [], snd (cached_ask L1_CACHE_SIZE blank_caps world0 ''q''))"
    by (simp add: prod_eq_iff)
  have calls: "retrieval_calls (snd (cached_ask L1_CACHE_SIZE blank_caps world0 ''q'')) = 1"
    by (simp add: eval_defs blank_caps_def newline_def answer_prompt_def)
  have l1: "get_from_l1 (lru_cache_store blank_world) ''k'' = Some []"
    and l2: "get_from_l2 blank_world ''k'' = Inr (Some [])"
    by (simp_all add: blank_world_def world0_def get_from_l1_def get_from_l2_def)
  have answer: "fst (cached_ask L1_CACHE_SIZE demo_caps blank_world ''k'') = Inr ''Risk: High''"
    by (simp add: eval_defs blank_world_def newline_def answer_prompt_def)
  have "retrieval_calls (snd (cached_ask L1_CACHE_SIZE demo_caps blank_world ''k''))
       = retrieval_calls blank_world + 1"
    using l1 l2 cached_ask_empty_value_is_absent [of blank_world "''k''" L1_CACHE_SIZE demo_caps]
    by blast
  moreover have "retrieval_calls (snd (cached_ask L1_CACHE_SIZE blank_caps
        (snd (cached_ask L1_CACHE_SIZE blank_caps world0 ''q'')) ''q''))
      = retrieval_calls (snd (cached_ask L1_CACHE_SIZE blank_caps world0 ''q'')) + 1"
    using first cached_ask_empty_value_is_absent [of world0 "''q''" L1_CACHE_SIZE blank_caps
         "snd (cached_ask L1_CACHE_SIZE blank_caps world0 ''q'')"]
    by blast
  ultimately show ?thesis
    using blank calls l1 l2 answer by simp
qed

section \<open>Concurrent calls of cached_ask\<close>

text \<open>A call that runs alone takes its three steps and is \<open>cached_ask\<close>.\<close>

lemma run_alone:
  "run (call_step cap caps) [0, 0, 0] ([Pending q], w) =
     ([Finished (fst (cached_ask cap caps w q))], snd (cached_ask cap caps w q))"
proof (cases "cached_ask_lookup cap w q")
  case (Pair l w1)
  show ?thesis
  proof (cases l)
    case Miss
    obtain outcome w2 where a: "ask caps w1 q = (outcome, w2)" by (cases "ask caps w1 q")
    show ?thesis using Pair Miss a
      by (cases outcome) (auto simp: cached_ask_def split: prod.splits)
  qed (use Pair in \<open>auto simp: cached_ask_def\<close>)
qed














section \<open>The fan-out of the /updates handler\<close>











end
